theory Spec2Isabelle
  imports Main "HOL-Library.List_Lexorder"
begin

section \<open>Shared vocabulary of the two workflow files\<close>

text \<open>
  Both \<^verbatim>\<open>worker.cpp\<close> and \<^verbatim>\<open>worker2.cpp\<close> walk LLVM instructions and only ask
  whether an instruction is a store or a load. The number carried by an instruction
  stands for its address (\<^verbatim>\<open>&Inst\<close>), which \<^verbatim>\<open>isl_id_alloc\<close> records as user pointer.
\<close>

datatype Instruction = StoreInst nat | LoadInst nat | OtherInst nat

type_synonym BasicBlock = "Instruction list"

text \<open>
  isl sets and maps are built from their textual notation
  (\<^verbatim>\<open>isl_set_read_from_str\<close>, \<^verbatim>\<open>isl_map_read_from_str\<close>); the model keeps that text.
\<close>

type_synonym isl_set = string
type_synonym isl_map = string

text \<open>
  A statement instance is a statement index with an iteration vector; a schedule maps
  instances to timestamp vectors; a dependence relation is a finite list of
  (source, target) instance pairs.
\<close>

type_synonym inst = "nat \<times> int list"
type_synonym isl_schedule = "inst \<Rightarrow> int list"
type_synonym isl_union_map = "(inst \<times> inst) list"

text \<open>
  Modelled from the spec: the source tuple of a domain or of an access relation
  (sections 3 and 4.1), which isl would report and the repository does not define. In the
  textual notation it is the text between the first \<^verbatim>\<open>[\<close> and the next \<^verbatim>\<open>]\<close>.
\<close>

definition isl_tuple :: "string \<Rightarrow> string" where
  "isl_tuple s = takeWhile (\<lambda>c. c \<noteq> CHR '']'') (drop 1 (dropWhile (\<lambda>c. c \<noteq> CHR ''['') s))"

text \<open>
  Modelled from the spec: the dimensionality of that tuple (sections 3 and 4.1): the
  number of its comma-separated coordinates.
\<close>

definition isl_dim_in :: "string \<Rightarrow> nat" where
  "isl_dim_in s =
     (let t = isl_tuple s in if t = [] then 0 else Suc (length (filter (\<lambda>c. c = CHR '','') t)))"

section \<open>\<^verbatim>\<open>worker2.cpp\<close>: the pass-manager workflow\<close>

text \<open>\<^verbatim>\<open>MemoryAccess\<close> as line 118 builds it: an access map with its type.\<close>

datatype AccessType = READ | WRITE

record MemoryAccess =
  AccessMap :: isl_map
  Type :: AccessType

text \<open>
  A loop with the blocks \<^verbatim>\<open>getBlocks()\<close> yields; the header label tells loops with equal
  bodies apart.
\<close>

record Loop =
  Header :: nat
  Blocks :: "BasicBlock list"

text \<open>
  The \<^verbatim>\<open>Scop\<close> of \<^verbatim>\<open>worker2.cpp\<close>: the function it was made for, the domains added by
  \<^verbatim>\<open>addDomain\<close>, the accesses added by \<^verbatim>\<open>addAccess\<close>, and the schedule read by
  \<^verbatim>\<open>getSchedule\<close> and written by \<^verbatim>\<open>setSchedule\<close>.
\<close>

record PMScop =
  pm_function :: string
  pm_domain :: "isl_set list"
  pm_accesses :: "MemoryAccess list"
  pm_schedule :: isl_schedule

text \<open>
  What the passes read and write of a function: its name, its loops in the order of
  \<^verbatim>\<open>LoopAnalysis\<close>, and its metadata table.
\<close>

record Function =
  Name :: string
  LoopInfo :: "Loop list"
  Metadata :: "string \<rightharpoonup> PMScop"

text \<open>The detection result holds the loops added by \<^verbatim>\<open>addLoop\<close>.\<close>

record ScopDetectionResult =
  getLoops :: "Loop list"

text \<open>\<^verbatim>\<open>PreservedAnalyses::all()\<close> and \<^verbatim>\<open>PreservedAnalyses::none()\<close>.\<close>

datatype PreservedAnalyses = PA_all | PA_none

text \<open>
  \<^verbatim>\<open>ScopDetectionPass::run\<close>, lines 57-74. The helpers \<^verbatim>\<open>isEligibleForScop\<close> and
  \<^verbatim>\<open>isAffineLoop\<close> are not defined in the repository and are parameters. The loop over
  \<^verbatim>\<open>LI\<close> returns from inside its body at the first affine loop.
\<close>

fun detect_loops :: "(Loop \<Rightarrow> bool) \<Rightarrow> Loop list \<Rightarrow> ScopDetectionResult option" where
  "detect_loops isAffineLoop [] = None"
| "detect_loops isAffineLoop (L # LI) =
     (if isAffineLoop L then Some \<lparr>getLoops = [] @ [L]\<rparr>
      else detect_loops isAffineLoop LI)"

definition ScopDetectionPass_run ::
  "(Function \<Rightarrow> bool) \<Rightarrow> (Loop \<Rightarrow> bool) \<Rightarrow> Function \<Rightarrow> ScopDetectionResult option" where
  "ScopDetectionPass_run isEligibleForScop isAffineLoop F =
     (if \<not> isEligibleForScop F then None
      else detect_loops isAffineLoop (LoopInfo F))"

text \<open>
  The constructor of \<^verbatim>\<open>Scop\<close> (line 99) is not in the repository. A fresh model refers
  to its function and has no domain and no access yet; its schedule is the loop order
  (the comment at line 190), every instance stamped with its own iteration vector.
\<close>

definition new_Scop :: "Function \<Rightarrow> PMScop" where
  "new_Scop F = \<lparr>pm_function = Name F, pm_domain = [], pm_accesses = [],
                 pm_schedule = (\<lambda>(k, iv). iv)\<rparr>"

text \<open>The two instruction tests of line 113, \<^verbatim>\<open>isa<StoreInst>\<close> and \<^verbatim>\<open>isa<LoadInst>\<close>.\<close>

definition isa_StoreInst :: "Instruction \<Rightarrow> bool" where
  "isa_StoreInst I = (case I of StoreInst a \<Rightarrow> True | _ \<Rightarrow> False)"

definition isa_LoadInst :: "Instruction \<Rightarrow> bool" where
  "isa_LoadInst I = (case I of LoadInst a \<Rightarrow> True | _ \<Rightarrow> False)"

text \<open>
  The body of the innermost loop of \<^verbatim>\<open>BuildScopPass::run\<close>, lines 113-119: a store or a
  load adds one access, typed WRITE for a store and READ for a load. \<^verbatim>\<open>buildAccessMap\<close>
  is not in the repository and is a parameter.
\<close>

definition add_instruction :: "(Instruction \<Rightarrow> isl_map) \<Rightarrow> PMScop \<Rightarrow> Instruction \<Rightarrow> PMScop" where
  "add_instruction buildAccessMap S I =
     (if isa_StoreInst I \<or> isa_LoadInst I then
        (let AccessMap = buildAccessMap I;
             Type = (if isa_StoreInst I then WRITE else READ)
         in S\<lparr>pm_accesses := pm_accesses S @ [\<lparr>AccessMap = AccessMap, Type = Type\<rparr>]\<rparr>)
      else S)"

text \<open>
  The body of the loop over the detected loops, lines 105-122: the extracted loop domain
  is added, then every instruction of every block of the loop is visited.
  \<^verbatim>\<open>extractLoopDomain\<close> is not in the repository and is a parameter.
\<close>

definition add_loop ::
  "(Loop \<Rightarrow> isl_set) \<Rightarrow> (Instruction \<Rightarrow> isl_map) \<Rightarrow> PMScop \<Rightarrow> Loop \<Rightarrow> PMScop" where
  "add_loop extractLoopDomain buildAccessMap S L =
     foldl (\<lambda>S BB. foldl (add_instruction buildAccessMap) S BB)
       (S\<lparr>pm_domain := pm_domain S @ [extractLoopDomain L]\<rparr>) (Blocks L)"

text \<open>
  The model travels between the passes as the function's metadata node
  \<^verbatim>\<open>polly.scop\<close> (line 128, read back at lines 146, 185 and 226). The encoding as a
  metadata node (\<^verbatim>\<open>getAsMDNode\<close>, \<^verbatim>\<open>getScopFromMetadata\<close>) is not in the repository; the
  metadata table holds the model itself.
\<close>

definition getScopFromMetadata :: "Function \<Rightarrow> PMScop option" where
  "getScopFromMetadata F = Metadata F ''polly.scop''"

definition setMetadata :: "Function \<Rightarrow> string \<Rightarrow> PMScop \<Rightarrow> Function" where
  "setMetadata F key S = F\<lparr>Metadata := (Metadata F)(key \<mapsto> S)\<rparr>"

text \<open>
  \<^verbatim>\<open>BuildScopPass::run\<close>, lines 92-131. The detection result is the one of
  \<^verbatim>\<open>ScopDetectionPass\<close> on the same function; the isl context handle is not modelled.
\<close>

definition BuildScopPass_run ::
  "(Function \<Rightarrow> bool) \<Rightarrow> (Loop \<Rightarrow> bool) \<Rightarrow> (Loop \<Rightarrow> isl_set) \<Rightarrow> (Instruction \<Rightarrow> isl_map)
    \<Rightarrow> Function \<Rightarrow> PreservedAnalyses \<times> Function" where
  "BuildScopPass_run isEligibleForScop isAffineLoop extractLoopDomain buildAccessMap F =
     (case ScopDetectionPass_run isEligibleForScop isAffineLoop F of
        None \<Rightarrow> (PA_all, F)
      | Some ScopDetect \<Rightarrow>
          (let S = foldl (add_loop extractLoopDomain buildAccessMap) (new_Scop F)
                     (getLoops ScopDetect)
           in (PA_none, setMetadata F ''polly.scop'' S)))"

text \<open>
  \<^verbatim>\<open>OptimizeSchedulePass::run\<close>, lines 184-214. \<^verbatim>\<open>S\<close> points at the model attached to the
  function, so \<^verbatim>\<open>setSchedule\<close> changes the attached model. The scheduler
  \<^verbatim>\<open>isl_schedule_from_domain_and_dependences\<close> and the getter \<^verbatim>\<open>getDependences\<close> are
  parameters; the third argument is the empty union map. The current schedule is read
  and not used.
\<close>

definition OptimizeSchedulePass_run ::
  "(PMScop \<Rightarrow> isl_union_map) \<Rightarrow> (isl_set list \<Rightarrow> isl_union_map \<Rightarrow> isl_union_map \<Rightarrow> isl_schedule)
    \<Rightarrow> Function \<Rightarrow> PreservedAnalyses \<times> Function" where
  "OptimizeSchedulePass_run getDependences isl_schedule_from_domain_and_dependences F =
     (case getScopFromMetadata F of
        None \<Rightarrow> (PA_all, F)
      | Some S \<Rightarrow>
          (let Current = pm_schedule S;
               Optimized = isl_schedule_from_domain_and_dependences
                             (pm_domain S) (getDependences S) []
           in (PA_none, setMetadata F ''polly.scop'' (S\<lparr>pm_schedule := Optimized\<rparr>))))"

text \<open>
  \<^verbatim>\<open>CodeGenPass::run\<close>, lines 225-250. Building the AST from the final schedule
  (\<^verbatim>\<open>ast_from_schedule\<close>) and emitting IR from it (\<^verbatim>\<open>generateLLVMFromAST\<close>) are parameters.
\<close>

definition CodeGenPass_run ::
  "(isl_schedule \<Rightarrow> 'ast) \<Rightarrow> ('ast \<Rightarrow> Function \<Rightarrow> Function)
    \<Rightarrow> Function \<Rightarrow> PreservedAnalyses \<times> Function" where
  "CodeGenPass_run ast_from_schedule generateLLVMFromAST F =
     (case getScopFromMetadata F of
        None \<Rightarrow> (PA_all, F)
      | Some S \<Rightarrow>
          (let FinalSchedule = pm_schedule S;
               AST = ast_from_schedule FinalSchedule
           in (PA_none, generateLLVMFromAST AST F)))"

section \<open>\<^verbatim>\<open>worker.cpp\<close>: the direct workflow\<close>

text \<open>
  A statement of \<^verbatim>\<open>worker.cpp\<close>: its isl id (name and user pointer), its domain, and the
  accesses added by \<^verbatim>\<open>addAccess\<close>, each with its kind
  (\<^verbatim>\<open>ScopArrayInfo::MK_WRITE\<close>, \<^verbatim>\<open>ScopArrayInfo::MK_READ\<close>).
\<close>

datatype MemoryKind = MK_READ | MK_WRITE

record ScopStmt =
  StmtID :: "string \<times> nat"
  StmtDomain :: isl_set
  StmtAccesses :: "(MemoryKind \<times> isl_map) list"

text \<open>
  The \<^verbatim>\<open>Scop\<close> of \<^verbatim>\<open>worker.cpp\<close>: its basic blocks, the statements added by
  \<^verbatim>\<open>addStmt\<close>, and the schedule set by \<^verbatim>\<open>setSchedule\<close> (none before the first call).
\<close>

record Scop =
  BasicBlocks :: "BasicBlock list"
  Stmts :: "ScopStmt list"
  Schedule :: "isl_schedule option"

text \<open>
  \<^verbatim>\<open>buildScop\<close>, lines 70-101: the body of the inner loop, then the two nested loops.
  A store becomes a statement with the fixed domain text, then receives its write access
  and its read access, in this order; any other instruction is skipped.
\<close>

definition addAccess :: "ScopStmt \<Rightarrow> MemoryKind \<Rightarrow> isl_map \<Rightarrow> ScopStmt" where
  "addAccess Stmt kind rel = Stmt\<lparr>StmtAccesses := StmtAccesses Stmt @ [(kind, rel)]\<rparr>"

definition buildScop_inst :: "Scop \<Rightarrow> Instruction \<Rightarrow> Scop" where
  "buildScop_inst S Inst =
     (case Inst of
        StoreInst a \<Rightarrow>
          (let StmtID = (''Stmt'', a);
               Domain = ''{ [i,j] : 0 <= i < N and 0 <= j < M }'';
               Stmt = \<lparr>StmtID = StmtID, StmtDomain = Domain, StmtAccesses = []\<rparr>;
               WriteAccess = ''{ [i,j] -> C[i,j] }'';
               Stmt = addAccess Stmt MK_WRITE WriteAccess;
               ReadAccess = ''{ [i,j] -> A[i,j] }'';
               Stmt = addAccess Stmt MK_READ ReadAccess
           in S\<lparr>Stmts := Stmts S @ [Stmt]\<rparr>)
      | _ \<Rightarrow> S)"

definition buildScop :: "Scop \<Rightarrow> Scop" where
  "buildScop S = foldl (\<lambda>S StmtBB. foldl buildScop_inst S StmtBB) S (BasicBlocks S)"

text \<open>
  \<^verbatim>\<open>optimizeSchedule\<close>, lines 146-172. The repository does not define
  \<^verbatim>\<open>buildInitialSchedule\<close>, \<^verbatim>\<open>isl_schedule_node_band_tile\<close> and
  \<^verbatim>\<open>isl_schedule_fulfills_dependences\<close>; they are the parameters \<open>build\<close>, \<open>tile\<close> and
  \<open>fulfills\<close>. \<open>AllDependences\<close> is the value of \<^verbatim>\<open>DepInfo.getAllDependences()\<close>.
\<close>

definition optimizeSchedule ::
  "(Scop \<Rightarrow> isl_schedule) \<Rightarrow> (isl_schedule \<Rightarrow> int \<Rightarrow> int \<Rightarrow> isl_schedule)
    \<Rightarrow> (isl_schedule \<Rightarrow> isl_union_map \<Rightarrow> bool) \<Rightarrow> isl_union_map \<Rightarrow> Scop \<Rightarrow> Scop" where
  "optimizeSchedule build tile fulfills AllDependences S =
     (let CurrentSchedule = build S;
          Optimized = tile CurrentSchedule 32 32;
          Optimized = (if \<not> fulfills Optimized AllDependences then CurrentSchedule
                       else Optimized)
      in S\<lparr>Schedule := Some Optimized\<rparr>)"

text \<open>
  For the loop invariant of \<^verbatim>\<open>buildScop\<close>: the statements that one instruction
  contributes to the model.
\<close>

definition lifted_stmts :: "Instruction \<Rightarrow> ScopStmt list" where
  "lifted_stmts I =
     (case I of
        StoreInst a \<Rightarrow>
          [\<lparr>StmtID = (''Stmt'', a), StmtDomain = ''{ [i,j] : 0 <= i < N and 0 <= j < M }'',
            StmtAccesses = [(MK_WRITE, ''{ [i,j] -> C[i,j] }''), (MK_READ, ''{ [i,j] -> A[i,j] }'')]\<rparr>]
      | _ \<Rightarrow> [])"

text \<open>
  For the loop invariant of \<^verbatim>\<open>BuildScopPass::run\<close>: the access recorded for a load or a
  store.
\<close>

definition memory_access :: "(Instruction \<Rightarrow> isl_map) \<Rightarrow> Instruction \<Rightarrow> MemoryAccess" where
  "memory_access buildAccessMap I =
     \<lparr>AccessMap = buildAccessMap I, Type = (if isa_StoreInst I then WRITE else READ)\<rparr>"

section \<open>The polyhedral model and the isl operations, as the specification describes them\<close>

text \<open>
  Modelled from the spec: the polyhedral model of section 3, which the repository only
  names (\<^verbatim>\<open>Scop\<close>, \<^verbatim>\<open>ScopStmt\<close> and the isl objects are declared elsewhere). An access
  maps an iteration vector to an element of a named array and is tagged READ or WRITE.
\<close>

record Access =
  acc_type :: AccessType
  acc_array :: string
  acc_rel :: "int list \<Rightarrow> int list"

text \<open>
  Modelled from the spec: a statement of section 3, missing with the model classes. It
  owns an iteration domain, here the finite list of its integer points, and an ordered
  list of accesses. A model is the list of its statements in source order.
\<close>

record Statement =
  stmt_domain :: "int list list"
  stmt_accesses :: "Access list"

type_synonym Model = "Statement list"

text \<open>
  Modelled from the spec: the initial schedule of section 4.3 (2), missing as
  \<^verbatim>\<open>buildInitialSchedule\<close>: the identity, each iteration vector padded with the
  sequencing index of its statement.
\<close>

definition initial_schedule :: isl_schedule where
  "initial_schedule = (\<lambda>(k, iv). iv @ [int k])"

text \<open>
  Modelled from the spec: the original execution order that section 4.2 compares
  instances by (it is part of the missing analyzer): the order of the initial schedule.
\<close>

definition executed_before :: "inst \<Rightarrow> inst \<Rightarrow> bool" where
  "executed_before x y = (initial_schedule x < initial_schedule y)"

text \<open>
  Modelled from the spec: the memory references of section 3 as the missing analyzer
  (\<^verbatim>\<open>DependenceInfo::analyze\<close>) enumerates them: every (instance, array, element) reached
  through an access of the given type.
\<close>

definition touches :: "AccessType \<Rightarrow> Model \<Rightarrow> (inst \<times> string \<times> int list) list" where
  "touches ty M =
     concat (map (\<lambda>(k, st).
       concat (map (\<lambda>iv.
         map (\<lambda>a. ((k, iv), acc_array a, acc_rel a iv))
           (filter (\<lambda>a. acc_type a = ty) (stmt_accesses st)))
         (stmt_domain st)))
       (enumerate 0 M))"

text \<open>
  Modelled from the spec: the write instances that access a given array element
  (section 4.2, part of the missing analyzer).
\<close>

definition writes_to :: "Model \<Rightarrow> string \<Rightarrow> int list \<Rightarrow> inst list" where
  "writes_to M a e = map fst (filter (\<lambda>(w, a', e'). a' = a \<and> e' = e) (touches WRITE M))"

text \<open>
  Modelled from the spec: the last-write filter of section 4.2, part of the missing
  analyzer: among the writes to the element executed before the target, those that no
  later such write dominates.
\<close>

definition last_writes_before :: "Model \<Rightarrow> inst \<Rightarrow> string \<Rightarrow> int list \<Rightarrow> inst list" where
  "last_writes_before M t a e =
     (let cs = filter (\<lambda>w. executed_before w t) (writes_to M a e)
      in filter (\<lambda>w. list_all (\<lambda>w'. \<not> executed_before w w') cs) cs)"


text \<open>
  Modelled from the spec: the RAW dependences of section 4.2, missing as
  \<^verbatim>\<open>isl_dependence_from_scop\<close> and \<^verbatim>\<open>getRAWDependences\<close>, each edge with the array element
  it arises from: the most recent write to the element before each read of it.
\<close>

definition RAW_edges :: "Model \<Rightarrow> (inst \<times> inst \<times> string \<times> int list) list" where
  "RAW_edges M =
     concat (map (\<lambda>(r, a, e). map (\<lambda>w. (w, r, a, e)) (last_writes_before M r a e))
       (touches READ M))"

text \<open>
  Modelled from the spec: the RAW relation of section 4.2 as a relation between
  instances (missing as \<^verbatim>\<open>getRAWDependences\<close>).
\<close>

definition RAW :: "Model \<Rightarrow> isl_union_map" where
  "RAW M = map (\<lambda>(w, r, a, e). (w, r)) (RAW_edges M)"




text \<open>
  Modelled from the spec: the legality condition of section 4.3 (1) for one dependence,
  part of the missing \<^verbatim>\<open>isl_schedule_fulfills_dependences\<close>: the source is stamped
  lexicographically before the target, or with the same stamp when source and target are
  the same instance.
\<close>

definition respects_dep :: "isl_schedule \<Rightarrow> inst \<times> inst \<Rightarrow> bool" where
  "respects_dep sched d =
     (case d of (src, tgt) \<Rightarrow> sched src < sched tgt \<or> (sched src = sched tgt \<and> src = tgt))"

text \<open>
  Modelled from the spec: the legality predicate of section 4.3 (1), missing as
  \<^verbatim>\<open>isl_schedule_fulfills_dependences\<close>: every dependence is respected.
\<close>

definition isl_schedule_fulfills_dependences :: "isl_schedule \<Rightarrow> isl_union_map \<Rightarrow> bool" where
  "isl_schedule_fulfills_dependences sched deps = list_all (respects_dep sched) deps"

text \<open>
  Modelled from the spec: the tiling transformation of section 4.3 (3) on one timestamp
  vector, part of the missing \<^verbatim>\<open>isl_schedule_node_band_tile\<close>. The band is the
  \<open>length T\<close> coordinates from position \<open>p\<close>; its tile coordinates come first, its point
  coordinates next.
\<close>

definition tile_band :: "nat \<Rightarrow> int list \<Rightarrow> int list \<Rightarrow> int list" where
  "tile_band p T ts =
     (let band = take (length T) (drop p ts)
      in take p ts @ map2 (\<lambda>t Ti. t div Ti) band T @ map2 (\<lambda>t Ti. t mod Ti) band T
           @ drop (p + length T) ts)"

text \<open>
  Modelled from the spec: \<^verbatim>\<open>isl_schedule_node_band_tile\<close> as \<^verbatim>\<open>worker.cpp\<close> calls it, with
  one size for each of the two outermost coordinates (section 4.3 (3) and the comment at
  line 159 of \<^verbatim>\<open>worker.cpp\<close>).
\<close>

definition isl_schedule_node_band_tile :: "isl_schedule \<Rightarrow> int \<Rightarrow> int \<Rightarrow> isl_schedule" where
  "isl_schedule_node_band_tile sched Ti Tj = (\<lambda>x. tile_band 0 [Ti, Tj] (sched x))"

text \<open>
  Modelled from the spec: the leaf execution order of section 8 (the schedule tree
  builder is missing) over a finite list of instances: the instances sorted by
  timestamp, instances with equal timestamps keeping their order.
\<close>

definition leaf_order :: "isl_schedule \<Rightarrow> inst list \<Rightarrow> inst list" where
  "leaf_order sched xs = sort_key sched xs"

section \<open>Detection finds the first affine loop\<close>

lemma detect_loops_None:
  "detect_loops A LI = None \<longleftrightarrow> (\<forall>L \<in> set LI. \<not> A L)"
  by (induction LI) auto

lemma detect_loops_Some:
  "detect_loops A LI = Some R \<longleftrightarrow>
     (\<exists>pre L post. LI = pre @ L # post \<and> (\<forall>x \<in> set pre. \<not> A x) \<and> A L \<and> R = \<lparr>getLoops = [L]\<rparr>)"
proof (induction LI)
  case Nil
  then show ?case by simp
next
  case (Cons a LI)
  show ?case
  proof (cases "A a")
    case True
    have "(\<exists>pre L post. a # LI = pre @ L # post \<and> (\<forall>x \<in> set pre. \<not> A x) \<and> A L \<and> R = \<lparr>getLoops = [L]\<rparr>)
          \<longleftrightarrow> R = \<lparr>getLoops = [a]\<rparr>"
    proof
      assume "\<exists>pre L post. a # LI = pre @ L # post \<and> (\<forall>x \<in> set pre. \<not> A x) \<and> A L \<and> R = \<lparr>getLoops = [L]\<rparr>"
      then obtain pre L post where h: "a # LI = pre @ L # post" "\<forall>x \<in> set pre. \<not> A x"
        "R = \<lparr>getLoops = [L]\<rparr>" by blast
      from h(1,2) True have "pre = []" by (cases pre) auto
      with h show "R = \<lparr>getLoops = [a]\<rparr>" by simp
    next
      assume "R = \<lparr>getLoops = [a]\<rparr>"
      with True have "a # LI = [] @ a # LI \<and> (\<forall>x \<in> set []. \<not> A x) \<and> A a \<and> R = \<lparr>getLoops = [a]\<rparr>"
        by simp
      then show "\<exists>pre L post. a # LI = pre @ L # post \<and> (\<forall>x \<in> set pre. \<not> A x) \<and> A L \<and> R = \<lparr>getLoops = [L]\<rparr>"
        by blast
    qed
    with True show ?thesis by auto
  next
    case False
    have "(\<exists>pre L post. a # LI = pre @ L # post \<and> (\<forall>x \<in> set pre. \<not> A x) \<and> A L \<and> R = \<lparr>getLoops = [L]\<rparr>)
          \<longleftrightarrow> (\<exists>pre L post. LI = pre @ L # post \<and> (\<forall>x \<in> set pre. \<not> A x) \<and> A L \<and> R = \<lparr>getLoops = [L]\<rparr>)"
    proof
      assume "\<exists>pre L post. a # LI = pre @ L # post \<and> (\<forall>x \<in> set pre. \<not> A x) \<and> A L \<and> R = \<lparr>getLoops = [L]\<rparr>"
      then obtain pre L post where h: "a # LI = pre @ L # post" "\<forall>x \<in> set pre. \<not> A x" "A L"
        "R = \<lparr>getLoops = [L]\<rparr>" by blast
      from h(1,3) False obtain pre' where p: "pre = a # pre'" by (cases pre) auto
      with h have "LI = pre' @ L # post \<and> (\<forall>x \<in> set pre'. \<not> A x) \<and> A L \<and> R = \<lparr>getLoops = [L]\<rparr>"
        by simp
      then show "\<exists>pre L post. LI = pre @ L # post \<and> (\<forall>x \<in> set pre. \<not> A x) \<and> A L \<and> R = \<lparr>getLoops = [L]\<rparr>"
        by blast
    next
      assume "\<exists>pre L post. LI = pre @ L # post \<and> (\<forall>x \<in> set pre. \<not> A x) \<and> A L \<and> R = \<lparr>getLoops = [L]\<rparr>"
      then obtain pre L post where h: "LI = pre @ L # post" "\<forall>x \<in> set pre. \<not> A x" "A L"
        "R = \<lparr>getLoops = [L]\<rparr>" by blast
      with False have "a # LI = (a # pre) @ L # post \<and> (\<forall>x \<in> set (a # pre). \<not> A x) \<and> A L
        \<and> R = \<lparr>getLoops = [L]\<rparr>" by simp
      then show "\<exists>pre L post. a # LI = pre @ L # post \<and> (\<forall>x \<in> set pre. \<not> A x) \<and> A L \<and> R = \<lparr>getLoops = [L]\<rparr>"
        by blast
    qed
    with False Cons.IH show ?thesis by simp
  qed
qed

text \<open>
  C8. Detection models at most one loop per function. The result is empty exactly when
  the function is ineligible or none of its loops is affine; otherwise it holds exactly
  one loop, the first one of the loop list that passes the affine test, whatever loops
  (affine or not) follow it.
\<close>

theorem detection_first_affine_loop:
  "(ScopDetectionPass_run isEligibleForScop isAffineLoop F = None
      \<longleftrightarrow> (\<not> isEligibleForScop F \<or> (\<forall>L \<in> set (LoopInfo F). \<not> isAffineLoop L)))
   \<and> (ScopDetectionPass_run isEligibleForScop isAffineLoop F = Some R
      \<longleftrightarrow> (isEligibleForScop F \<and>
           (\<exists>pre L post. LoopInfo F = pre @ L # post \<and> (\<forall>x \<in> set pre. \<not> isAffineLoop x)
              \<and> isAffineLoop L \<and> R = \<lparr>getLoops = [L]\<rparr>)))"
  by (simp add: ScopDetectionPass_run_def detect_loops_None detect_loops_Some)

theorem detection_first_affine_loop_witness:
  "ScopDetectionPass_run (\<lambda>F. True) (\<lambda>L. 0 < Header L)
     \<lparr>Name = ''f'',
      LoopInfo = [\<lparr>Header = 0, Blocks = []\<rparr>, \<lparr>Header = 1, Blocks = []\<rparr>, \<lparr>Header = 2, Blocks = []\<rparr>],
      Metadata = Map.empty\<rparr>
   = Some \<lparr>getLoops = [\<lparr>Header = 1, Blocks = []\<rparr>]\<rparr>
   \<and> ScopDetectionPass_run (\<lambda>F. False) (\<lambda>L. 0 < Header L)
     \<lparr>Name = ''f'',
      LoopInfo = [\<lparr>Header = 0, Blocks = []\<rparr>, \<lparr>Header = 1, Blocks = []\<rparr>, \<lparr>Header = 2, Blocks = []\<rparr>],
      Metadata = Map.empty\<rparr> = None"
proof -
  let ?l0 = "\<lparr>Header = 0, Blocks = []\<rparr>" and ?l1 = "\<lparr>Header = 1, Blocks = []\<rparr>"
    and ?l2 = "\<lparr>Header = 2, Blocks = []\<rparr>"
  let ?F = "\<lparr>Name = ''f'', LoopInfo = [?l0, ?l1, ?l2], Metadata = Map.empty\<rparr>"
  have "LoopInfo ?F = [?l0] @ ?l1 # [?l2] \<and> (\<forall>x \<in> set [?l0]. \<not> 0 < Header x) \<and> 0 < Header ?l1
        \<and> \<lparr>getLoops = [?l1]\<rparr> = \<lparr>getLoops = [?l1]\<rparr>"
    by simp
  then have ex: "\<exists>pre L post. LoopInfo ?F = pre @ L # post \<and> (\<forall>x \<in> set pre. \<not> 0 < Header x)
        \<and> 0 < Header L \<and> \<lparr>getLoops = [?l1]\<rparr> = \<lparr>getLoops = [L]\<rparr>"
    by blast
  have a: "ScopDetectionPass_run (\<lambda>F. True) (\<lambda>L. 0 < Header L) ?F = Some \<lparr>getLoops = [?l1]\<rparr>"
    using detection_first_affine_loop [of "\<lambda>F. True" "\<lambda>L. 0 < Header L" ?F "\<lparr>getLoops = [?l1]\<rparr>"] ex
    by blast
  have b: "ScopDetectionPass_run (\<lambda>F. False) (\<lambda>L. 0 < Header L) ?F = None"
    using detection_first_affine_loop [of "\<lambda>F. False" "\<lambda>L. 0 < Header L" ?F]
    by blast
  from a b show ?thesis by blast
qed

section \<open>The passes without a SCoP\<close>

text \<open>
  C10. When detection returns no result, the model-building pass returns with all
  analyses preserved and the function as it was; when no SCoP metadata is attached to the
  function, so do the schedule-optimization pass and the code-generation pass.
\<close>

theorem no_scop_passes_preserve_all:
  "(ScopDetectionPass_run isEligibleForScop isAffineLoop F = None \<longrightarrow>
      BuildScopPass_run isEligibleForScop isAffineLoop extractLoopDomain buildAccessMap F
        = (PA_all, F))
   \<and> (getScopFromMetadata F = None \<longrightarrow>
      OptimizeSchedulePass_run getDependences scheduler F = (PA_all, F)
      \<and> CodeGenPass_run ast_from_schedule generateLLVMFromAST F = (PA_all, F))"
  by (simp add: BuildScopPass_run_def OptimizeSchedulePass_run_def CodeGenPass_run_def)

theorem no_scop_passes_preserve_all_witness:
  "ScopDetectionPass_run (\<lambda>F. True) (\<lambda>L. 0 < Header L)
      \<lparr>Name = ''f'', LoopInfo = [\<lparr>Header = 0, Blocks = [[StoreInst 7]]\<rparr>], Metadata = Map.empty\<rparr> = None
   \<and> BuildScopPass_run (\<lambda>F. True) (\<lambda>L. 0 < Header L) (\<lambda>L. ''{ [i] : 0 <= i < N }'')
        (\<lambda>I. ''{ [i] -> A[i] }'')
        \<lparr>Name = ''f'', LoopInfo = [\<lparr>Header = 0, Blocks = [[StoreInst 7]]\<rparr>], Metadata = Map.empty\<rparr>
      = (PA_all, \<lparr>Name = ''f'', LoopInfo = [\<lparr>Header = 0, Blocks = [[StoreInst 7]]\<rparr>], Metadata = Map.empty\<rparr>)
   \<and> getScopFromMetadata
        \<lparr>Name = ''f'', LoopInfo = [\<lparr>Header = 0, Blocks = [[StoreInst 7]]\<rparr>], Metadata = Map.empty\<rparr> = None
   \<and> OptimizeSchedulePass_run (\<lambda>S. []) (\<lambda>D R C. initial_schedule)
        \<lparr>Name = ''f'', LoopInfo = [\<lparr>Header = 0, Blocks = [[StoreInst 7]]\<rparr>], Metadata = Map.empty\<rparr>
      = (PA_all, \<lparr>Name = ''f'', LoopInfo = [\<lparr>Header = 0, Blocks = [[StoreInst 7]]\<rparr>], Metadata = Map.empty\<rparr>)
   \<and> CodeGenPass_run (\<lambda>s. s (0, [1, 2])) (\<lambda>ast F. F\<lparr>LoopInfo := []\<rparr>)
        \<lparr>Name = ''f'', LoopInfo = [\<lparr>Header = 0, Blocks = [[StoreInst 7]]\<rparr>], Metadata = Map.empty\<rparr>
      = (PA_all, \<lparr>Name = ''f'', LoopInfo = [\<lparr>Header = 0, Blocks = [[StoreInst 7]]\<rparr>], Metadata = Map.empty\<rparr>)"
proof -
  let ?F = "\<lparr>Name = ''f'', LoopInfo = [\<lparr>Header = 0, Blocks = [[StoreInst 7]]\<rparr>], Metadata = Map.empty\<rparr>"
  have d: "ScopDetectionPass_run (\<lambda>F. True) (\<lambda>L. 0 < Header L) ?F = None"
    by (simp add: ScopDetectionPass_run_def)
  have m: "getScopFromMetadata ?F = None"
    by (simp add: getScopFromMetadata_def)
  show ?thesis
    using d m
      no_scop_passes_preserve_all [of "\<lambda>F. True" "\<lambda>L. 0 < Header L" ?F "\<lambda>L. ''{ [i] : 0 <= i < N }''"
        "\<lambda>I. ''{ [i] -> A[i] }''" "\<lambda>S. []" "\<lambda>D R C. initial_schedule" "\<lambda>s. s (0, [1, 2])"
        "\<lambda>ast F. F\<lparr>LoopInfo := []\<rparr>"]
    by simp
qed

section \<open>The statements built by \<^verbatim>\<open>buildScop\<close>\<close>

lemma isl_dims_fixed:
  "isl_tuple ''{ [i,j] : 0 <= i < N and 0 <= j < M }'' = ''i,j''"
  "isl_tuple ''{ [i,j] -> C[i,j] }'' = ''i,j''"
  "isl_tuple ''{ [i,j] -> A[i,j] }'' = ''i,j''"
  "isl_dim_in ''{ [i,j] : 0 <= i < N and 0 <= j < M }'' = 2"
  "isl_dim_in ''{ [i,j] -> C[i,j] }'' = 2"
  "isl_dim_in ''{ [i,j] -> A[i,j] }'' = 2"
  by (simp_all add: isl_tuple_def isl_dim_in_def)

lemma buildScop_inst_eq:
  "buildScop_inst S I = S\<lparr>Stmts := Stmts S @ lifted_stmts I\<rparr>"
  by (cases I) (simp_all add: buildScop_inst_def lifted_stmts_def addAccess_def)

lemma buildScop_block:
  "foldl buildScop_inst S BB = S\<lparr>Stmts := Stmts S @ concat (map lifted_stmts BB)\<rparr>"
  by (induction BB arbitrary: S) (simp_all add: buildScop_inst_eq)

lemma buildScop_blocks:
  "foldl (\<lambda>S StmtBB. foldl buildScop_inst S StmtBB) S BBs
     = S\<lparr>Stmts := Stmts S @ concat (map lifted_stmts (concat BBs))\<rparr>"
  by (induction BBs arbitrary: S) (simp_all add: buildScop_block)

lemma buildScop_eq:
  "buildScop S = S\<lparr>Stmts := Stmts S @ concat (map lifted_stmts (concat (BasicBlocks S)))\<rparr>"
  by (simp add: buildScop_def buildScop_blocks)

lemma lifted_ids:
  "map StmtID (concat (map lifted_stmts Is)) = [(''Stmt'', a). StoreInst a \<leftarrow> Is]"
  by (induction Is) (auto simp: lifted_stmts_def split: Instruction.splits)

lemma lifted_shape:
  assumes "st \<in> set (concat (map lifted_stmts Is))"
  shows "\<exists>a. StoreInst a \<in> set Is \<and> st = \<lparr>StmtID = (''Stmt'', a),
            StmtDomain = ''{ [i,j] : 0 <= i < N and 0 <= j < M }'',
            StmtAccesses = [(MK_WRITE, ''{ [i,j] -> C[i,j] }''), (MK_READ, ''{ [i,j] -> A[i,j] }'')]\<rparr>"
  using assms by (auto simp: lifted_stmts_def split: Instruction.splits)

text \<open>
  C9. \<^verbatim>\<open>buildScop\<close> keeps the statements already in the model and adds one statement
  per store instruction, in instruction order, and none for any other instruction. Every
  added statement carries exactly a WRITE access followed by a READ access; its domain is
  two-dimensional and each access has the same input tuple as the domain.
\<close>

theorem buildScop_statements:
  "take (length (Stmts S)) (Stmts (buildScop S)) = Stmts S
   \<and> map StmtID (drop (length (Stmts S)) (Stmts (buildScop S)))
       = [(''Stmt'', a). StoreInst a \<leftarrow> concat (BasicBlocks S)]
   \<and> (\<forall>st \<in> set (drop (length (Stmts S)) (Stmts (buildScop S))).
        (\<exists>a. StoreInst a \<in> set (concat (BasicBlocks S)) \<and> StmtID st = (''Stmt'', a))
        \<and> map fst (StmtAccesses st) = [MK_WRITE, MK_READ]
        \<and> isl_dim_in (StmtDomain st) = 2
        \<and> (\<forall>acc \<in> set (StmtAccesses st).
              isl_tuple (snd acc) = isl_tuple (StmtDomain st) \<and> isl_dim_in (snd acc) = 2))"
proof (intro conjI ballI)
  show "take (length (Stmts S)) (Stmts (buildScop S)) = Stmts S"
    by (simp add: buildScop_eq)
  show "map StmtID (drop (length (Stmts S)) (Stmts (buildScop S)))
       = [(''Stmt'', a). StoreInst a \<leftarrow> concat (BasicBlocks S)]"
    by (simp add: buildScop_eq lifted_ids)
next
  fix st
  assume "st \<in> set (drop (length (Stmts S)) (Stmts (buildScop S)))"
  then have "st \<in> set (concat (map lifted_stmts (concat (BasicBlocks S))))"
    by (simp add: buildScop_eq)
  from lifted_shape [OF this] obtain a where a: "StoreInst a \<in> set (concat (BasicBlocks S))"
    and st: "st = \<lparr>StmtID = (''Stmt'', a),
            StmtDomain = ''{ [i,j] : 0 <= i < N and 0 <= j < M }'',
            StmtAccesses = [(MK_WRITE, ''{ [i,j] -> C[i,j] }''), (MK_READ, ''{ [i,j] -> A[i,j] }'')]\<rparr>"
    by blast
  from a st show "\<exists>a. StoreInst a \<in> set (concat (BasicBlocks S)) \<and> StmtID st = (''Stmt'', a)"
    by auto
  from st show "map fst (StmtAccesses st) = [MK_WRITE, MK_READ]" by simp
  from st show "isl_dim_in (StmtDomain st) = 2" by (simp add: isl_dims_fixed)
  fix acc assume "acc \<in> set (StmtAccesses st)"
  with st have "snd acc = ''{ [i,j] -> C[i,j] }'' \<or> snd acc = ''{ [i,j] -> A[i,j] }''"
    by auto
  then show "isl_tuple (snd acc) = isl_tuple (StmtDomain st)"
    using st by (auto simp: isl_dims_fixed)
  from \<open>snd acc = ''{ [i,j] -> C[i,j] }'' \<or> snd acc = ''{ [i,j] -> A[i,j] }''\<close>
  show "isl_dim_in (snd acc) = 2"
    by (auto simp: isl_dims_fixed)
qed

theorem buildScop_statements_witness:
  "map StmtID (Stmts (buildScop \<lparr>BasicBlocks = [[StoreInst 1, LoadInst 2], [OtherInst 4, StoreInst 3]],
       Stmts = [], Schedule = None\<rparr>)) = [(''Stmt'', 1), (''Stmt'', 3)]
   \<and> list_all (\<lambda>st. map fst (StmtAccesses st) = [MK_WRITE, MK_READ] \<and> isl_dim_in (StmtDomain st) = 2
         \<and> list_all (\<lambda>acc. isl_tuple (snd acc) = isl_tuple (StmtDomain st) \<and> isl_dim_in (snd acc) = 2)
              (StmtAccesses st))
       (Stmts (buildScop \<lparr>BasicBlocks = [[StoreInst 1, LoadInst 2], [OtherInst 4, StoreInst 3]],
       Stmts = [], Schedule = None\<rparr>))"
  using buildScop_statements [of "\<lparr>BasicBlocks = [[StoreInst 1, LoadInst 2], [OtherInst 4, StoreInst 3]],
       Stmts = [], Schedule = None\<rparr>"]
  by (simp add: list_all_iff)

section \<open>Model construction has no failure path\<close>

lemma add_instruction_eq:
  "add_instruction m S I =
     S\<lparr>pm_accesses := pm_accesses S @
        (if isa_StoreInst I \<or> isa_LoadInst I then [memory_access m I] else [])\<rparr>"
  by (simp add: add_instruction_def memory_access_def)

lemma add_block_eq:
  "foldl (add_instruction m) S BB =
     S\<lparr>pm_accesses := pm_accesses S @
        map (memory_access m) (filter (\<lambda>I. isa_StoreInst I \<or> isa_LoadInst I) BB)\<rparr>"
  by (induction BB arbitrary: S) (simp_all add: add_instruction_eq)

lemma add_blocks_eq:
  "foldl (\<lambda>S BB. foldl (add_instruction m) S BB) S BBs =
     S\<lparr>pm_accesses := pm_accesses S @
        map (memory_access m) (filter (\<lambda>I. isa_StoreInst I \<or> isa_LoadInst I) (concat BBs))\<rparr>"
  by (induction BBs arbitrary: S) (simp_all add: add_block_eq)

lemma add_loop_eq:
  "add_loop d m S L =
     S\<lparr>pm_domain := pm_domain S @ [d L],
       pm_accesses := pm_accesses S @
        map (memory_access m) (filter (\<lambda>I. isa_StoreInst I \<or> isa_LoadInst I) (concat (Blocks L)))\<rparr>"
  by (simp add: add_loop_def add_blocks_eq)

lemma add_loops_eq:
  "foldl (add_loop d m) S Ls =
     S\<lparr>pm_domain := pm_domain S @ map d Ls,
       pm_accesses := pm_accesses S @
        map (memory_access m)
          (filter (\<lambda>I. isa_StoreInst I \<or> isa_LoadInst I) (concat (concat (map Blocks Ls))))\<rparr>"
  by (induction Ls arbitrary: S) (simp_all add: add_loop_eq)

text \<open>
  C7, as the code has it. Neither builder validates anything or reports an error.
  \<^verbatim>\<open>buildScop\<close> always returns the model extended by one fixed two-dimensional statement
  per store. \<^verbatim>\<open>BuildScopPass::run\<close> returns without a model only when detection found
  nothing; otherwise it attaches the model that holds the extracted domain of every
  detected loop and one access per load or store, whatever the extracted domains and
  access maps are.
\<close>

theorem model_construction_never_fails:
  "Stmts (buildScop S) =
      Stmts S @ [\<lparr>StmtID = (''Stmt'', a), StmtDomain = ''{ [i,j] : 0 <= i < N and 0 <= j < M }'',
                  StmtAccesses = [(MK_WRITE, ''{ [i,j] -> C[i,j] }''),
                                  (MK_READ, ''{ [i,j] -> A[i,j] }'')]\<rparr>.
                 StoreInst a \<leftarrow> concat (BasicBlocks S)]
   \<and> (ScopDetectionPass_run isEligibleForScop isAffineLoop F = None \<longrightarrow>
        BuildScopPass_run isEligibleForScop isAffineLoop extractLoopDomain buildAccessMap F
          = (PA_all, F))
   \<and> (\<forall>R. ScopDetectionPass_run isEligibleForScop isAffineLoop F = Some R \<longrightarrow>
        BuildScopPass_run isEligibleForScop isAffineLoop extractLoopDomain buildAccessMap F
          = (PA_none, setMetadata F ''polly.scop''
              \<lparr>pm_function = Name F,
               pm_domain = map extractLoopDomain (getLoops R),
               pm_accesses =
                 map (\<lambda>I. \<lparr>AccessMap = buildAccessMap I,
                           Type = (if isa_StoreInst I then WRITE else READ)\<rparr>)
                   (filter (\<lambda>I. isa_StoreInst I \<or> isa_LoadInst I)
                      (concat (concat (map Blocks (getLoops R))))),
               pm_schedule = (\<lambda>(k, iv). iv)\<rparr>))"
proof (intro conjI allI impI)
  have "concat (map lifted_stmts Is) =
      [\<lparr>StmtID = (''Stmt'', a), StmtDomain = ''{ [i,j] : 0 <= i < N and 0 <= j < M }'',
                  StmtAccesses = [(MK_WRITE, ''{ [i,j] -> C[i,j] }''),
                                  (MK_READ, ''{ [i,j] -> A[i,j] }'')]\<rparr>.
                 StoreInst a \<leftarrow> Is]" for Is
    by (induction Is) (auto simp: lifted_stmts_def split: Instruction.splits)
  then show "Stmts (buildScop S) =
      Stmts S @ [\<lparr>StmtID = (''Stmt'', a), StmtDomain = ''{ [i,j] : 0 <= i < N and 0 <= j < M }'',
                  StmtAccesses = [(MK_WRITE, ''{ [i,j] -> C[i,j] }''),
                                  (MK_READ, ''{ [i,j] -> A[i,j] }'')]\<rparr>.
                 StoreInst a \<leftarrow> concat (BasicBlocks S)]"
    by (simp add: buildScop_eq)
next
  assume "ScopDetectionPass_run isEligibleForScop isAffineLoop F = None"
  then show "BuildScopPass_run isEligibleForScop isAffineLoop extractLoopDomain buildAccessMap F
          = (PA_all, F)"
    by (simp add: BuildScopPass_run_def)
next
  fix R
  assume "ScopDetectionPass_run isEligibleForScop isAffineLoop F = Some R"
  then show "BuildScopPass_run isEligibleForScop isAffineLoop extractLoopDomain buildAccessMap F
          = (PA_none, setMetadata F ''polly.scop''
              \<lparr>pm_function = Name F,
               pm_domain = map extractLoopDomain (getLoops R),
               pm_accesses =
                 map (\<lambda>I. \<lparr>AccessMap = buildAccessMap I,
                           Type = (if isa_StoreInst I then WRITE else READ)\<rparr>)
                   (filter (\<lambda>I. isa_StoreInst I \<or> isa_LoadInst I)
                      (concat (concat (map Blocks (getLoops R))))),
               pm_schedule = (\<lambda>(k, iv). iv)\<rparr>)"
    by (simp add: BuildScopPass_run_def add_loops_eq new_Scop_def memory_access_def [abs_def])
qed

theorem model_construction_never_fails_witness:
  "Stmts (buildScop \<lparr>BasicBlocks = [[LoadInst 1, StoreInst 2]], Stmts = [], Schedule = None\<rparr>)
     = [\<lparr>StmtID = (''Stmt'', 2), StmtDomain = ''{ [i,j] : 0 <= i < N and 0 <= j < M }'',
         StmtAccesses = [(MK_WRITE, ''{ [i,j] -> C[i,j] }''), (MK_READ, ''{ [i,j] -> A[i,j] }'')]\<rparr>]
   \<and> ScopDetectionPass_run (\<lambda>F. True) (\<lambda>L. 0 < Header L)
        \<lparr>Name = ''g'', LoopInfo = [\<lparr>Header = 0, Blocks = []\<rparr>,
            \<lparr>Header = 3, Blocks = [[StoreInst 5, OtherInst 6], [LoadInst 7]]\<rparr>],
         Metadata = Map.empty\<rparr>
       = Some \<lparr>getLoops = [\<lparr>Header = 3, Blocks = [[StoreInst 5, OtherInst 6], [LoadInst 7]]\<rparr>]\<rparr>
   \<and> BuildScopPass_run (\<lambda>F. True) (\<lambda>L. 0 < Header L) (\<lambda>L. ''{ [i] : i*i < N }'')
        (\<lambda>I. ''{ [i,j,k] -> B[k] }'')
        \<lparr>Name = ''g'', LoopInfo = [\<lparr>Header = 0, Blocks = []\<rparr>,
            \<lparr>Header = 3, Blocks = [[StoreInst 5, OtherInst 6], [LoadInst 7]]\<rparr>],
         Metadata = Map.empty\<rparr>
       = (PA_none, setMetadata
            \<lparr>Name = ''g'', LoopInfo = [\<lparr>Header = 0, Blocks = []\<rparr>,
              \<lparr>Header = 3, Blocks = [[StoreInst 5, OtherInst 6], [LoadInst 7]]\<rparr>],
             Metadata = Map.empty\<rparr> ''polly.scop''
            \<lparr>pm_function = ''g'', pm_domain = [''{ [i] : i*i < N }''],
             pm_accesses = [\<lparr>AccessMap = ''{ [i,j,k] -> B[k] }'', Type = WRITE\<rparr>,
                            \<lparr>AccessMap = ''{ [i,j,k] -> B[k] }'', Type = READ\<rparr>],
             pm_schedule = (\<lambda>(k, iv). iv)\<rparr>)"
proof -
  let ?S = "\<lparr>BasicBlocks = [[LoadInst 1, StoreInst 2]], Stmts = [], Schedule = None\<rparr>"
  let ?L = "\<lparr>Header = 3, Blocks = [[StoreInst 5, OtherInst 6], [LoadInst 7]]\<rparr>"
  let ?F = "\<lparr>Name = ''g'', LoopInfo = [\<lparr>Header = 0, Blocks = []\<rparr>, ?L], Metadata = Map.empty\<rparr>"
  have d: "ScopDetectionPass_run (\<lambda>F. True) (\<lambda>L. 0 < Header L) ?F = Some \<lparr>getLoops = [?L]\<rparr>"
    by (simp add: ScopDetectionPass_run_def)
  show ?thesis
    using d model_construction_never_fails [of ?S "\<lambda>F. True" "\<lambda>L. 0 < Header L" ?F
        "\<lambda>L. ''{ [i] : i*i < N }''" "\<lambda>I. ''{ [i,j,k] -> B[k] }''"]
    by (simp add: isa_StoreInst_def isa_LoadInst_def)
qed

text \<open>
  C7 as stated fails: a one-dimensional loop domain with two-dimensional access sources
  is accepted, and the model is attached to the function.
\<close>

theorem model_construction_counterexample:
  "isl_dim_in ''{ [i,j] -> A[i,j] }'' \<noteq> isl_dim_in ''{ [i] : 0 <= i < N }''
   \<and> BuildScopPass_run (\<lambda>F. True) (\<lambda>L. True) (\<lambda>L. ''{ [i] : 0 <= i < N }'')
        (\<lambda>I. ''{ [i,j] -> A[i,j] }'')
        \<lparr>Name = ''f'', LoopInfo = [\<lparr>Header = 0, Blocks = [[LoadInst 1, StoreInst 2]]\<rparr>],
         Metadata = Map.empty\<rparr>
     = (PA_none,
        \<lparr>Name = ''f'', LoopInfo = [\<lparr>Header = 0, Blocks = [[LoadInst 1, StoreInst 2]]\<rparr>],
         Metadata = [''polly.scop'' \<mapsto>
           \<lparr>pm_function = ''f'',
            pm_domain = [''{ [i] : 0 <= i < N }''],
            pm_accesses = [\<lparr>AccessMap = ''{ [i,j] -> A[i,j] }'', Type = READ\<rparr>,
                           \<lparr>AccessMap = ''{ [i,j] -> A[i,j] }'', Type = WRITE\<rparr>],
            pm_schedule = (\<lambda>(k, iv). iv)\<rparr>]\<rparr>)"
  by (simp add: isl_dim_in_def isl_tuple_def BuildScopPass_run_def ScopDetectionPass_run_def
      add_loop_def add_instruction_def new_Scop_def setMetadata_def isa_StoreInst_def
      isa_LoadInst_def)

section \<open>The fallback of \<^verbatim>\<open>optimizeSchedule\<close>\<close>

lemma optimizeSchedule_eq:
  "optimizeSchedule build tile fulfills D S =
     S\<lparr>Schedule := Some (if fulfills (tile (build S) 32 32) D then tile (build S) 32 32
                          else build S)\<rparr>"
  by (simp add: optimizeSchedule_def Let_def)

text \<open>
  C2. \<^verbatim>\<open>optimizeSchedule\<close> always returns. When the tiled candidate fails the legality
  check against the dependence set, the result is the input with exactly the schedule
  built before the transformation; when it passes, with exactly the tiled schedule. The
  schedule set is never anything else, and whenever the pre-transformation schedule
  fulfils the dependences (a well-formed pair) the schedule set fulfils them as well.
  This holds for every initial-schedule builder, every tiling and every legality check.
\<close>

theorem optimizeSchedule_fallback:
  "(\<not> fulfills (tile (build S) 32 32) D \<longrightarrow>
      optimizeSchedule build tile fulfills D S = S\<lparr>Schedule := Some (build S)\<rparr>)
   \<and> (fulfills (tile (build S) 32 32) D \<longrightarrow>
      optimizeSchedule build tile fulfills D S = S\<lparr>Schedule := Some (tile (build S) 32 32)\<rparr>)
   \<and> (\<exists>sched. Schedule (optimizeSchedule build tile fulfills D S) = Some sched
        \<and> (sched = build S \<or> sched = tile (build S) 32 32)
        \<and> (fulfills (build S) D \<longrightarrow> fulfills sched D))"
  by (simp add: optimizeSchedule_eq)

lemma tiled_example:
  "isl_schedule_node_band_tile initial_schedule 32 32 (0, [0, 32]) = [0, 1, 0, 0, 0]"
  "isl_schedule_node_band_tile initial_schedule 32 32 (0, [1, 31]) = [0, 0, 1, 31, 0]"
  by (simp_all add: isl_schedule_node_band_tile_def initial_schedule_def tile_band_def)

theorem optimizeSchedule_fallback_witness:
  "\<not> isl_schedule_fulfills_dependences (isl_schedule_node_band_tile initial_schedule 32 32)
        [((0, [0, 32]), (0, [1, 31]))]
   \<and> isl_schedule_fulfills_dependences initial_schedule [((0, [0, 32]), (0, [1, 31]))]
   \<and> optimizeSchedule (\<lambda>S. initial_schedule) isl_schedule_node_band_tile
        isl_schedule_fulfills_dependences [((0, [0, 32]), (0, [1, 31]))]
        \<lparr>BasicBlocks = [[StoreInst 1]], Stmts = [], Schedule = None\<rparr>
      = \<lparr>BasicBlocks = [[StoreInst 1]], Stmts = [], Schedule = Some initial_schedule\<rparr>
   \<and> isl_schedule_fulfills_dependences (isl_schedule_node_band_tile initial_schedule 32 32)
        [((0, [0, 0]), (0, [0, 1]))]
   \<and> optimizeSchedule (\<lambda>S. initial_schedule) isl_schedule_node_band_tile
        isl_schedule_fulfills_dependences [((0, [0, 0]), (0, [0, 1]))]
        \<lparr>BasicBlocks = [[StoreInst 1]], Stmts = [], Schedule = None\<rparr>
      = \<lparr>BasicBlocks = [[StoreInst 1]], Stmts = [],
         Schedule = Some (isl_schedule_node_band_tile initial_schedule 32 32)\<rparr>"
proof -
  let ?S = "\<lparr>BasicBlocks = [[StoreInst 1]], Stmts = [], Schedule = None\<rparr>"
  let ?D = "[((0, [0, 32]), (0, [1, 31]))] :: isl_union_map"
  let ?E = "[((0, [0, 0]), (0, [0, 1]))] :: isl_union_map"
  have bad: "\<not> isl_schedule_fulfills_dependences
               (isl_schedule_node_band_tile initial_schedule 32 32) ?D"
    by (simp add: isl_schedule_fulfills_dependences_def respects_dep_def tiled_example)
  have ok: "isl_schedule_fulfills_dependences initial_schedule ?D"
    by (simp add: isl_schedule_fulfills_dependences_def respects_dep_def initial_schedule_def)
  have good: "isl_schedule_fulfills_dependences
               (isl_schedule_node_band_tile initial_schedule 32 32) ?E"
    by (simp add: isl_schedule_fulfills_dependences_def respects_dep_def
        isl_schedule_node_band_tile_def initial_schedule_def tile_band_def)
  show ?thesis
    using bad ok good
      optimizeSchedule_fallback [of isl_schedule_fulfills_dependences isl_schedule_node_band_tile
        "\<lambda>S. initial_schedule" ?S ?D]
      optimizeSchedule_fallback [of isl_schedule_fulfills_dependences isl_schedule_node_band_tile
        "\<lambda>S. initial_schedule" ?S ?E]
    by simp
qed

section \<open>Tiling a band\<close>

lemma tile_band_length:
  "p + length T \<le> length ts \<Longrightarrow> length (tile_band p T ts) = length ts + length T"
  by (simp add: tile_band_def Let_def)

lemma tile_band_take:
  "p + length T \<le> length ts \<Longrightarrow> take p (tile_band p T ts) = take p ts"
  by (simp add: tile_band_def Let_def)

lemma tile_band_drop:
  "p + length T \<le> length ts \<Longrightarrow>
     drop (p + 2 * length T) (tile_band p T ts) = drop (p + length T) ts"
  by (simp add: tile_band_def Let_def)

lemma tile_band_tile_coord:
  assumes "p + length T \<le> length ts" "i < length T"
  shows "tile_band p T ts ! (p + i) = (ts ! (p + i)) div (T ! i)"
proof -
  let ?band = "take (length T) (drop p ts)"
  have lb: "length ?band = length T" using assms by simp
  have "tile_band p T ts ! (p + i)
        = (map2 (\<lambda>t Ti. t div Ti) ?band T @ map2 (\<lambda>t Ti. t mod Ti) ?band T
             @ drop (p + length T) ts) ! i"
    using assms by (simp add: tile_band_def Let_def nth_append)
  also have "\<dots> = map2 (\<lambda>t Ti. t div Ti) ?band T ! i"
    using assms lb by (simp add: nth_append)
  also have "\<dots> = (?band ! i) div (T ! i)"
    using assms lb by simp
  also have "?band ! i = ts ! (p + i)"
    using assms by simp
  finally show ?thesis .
qed

lemma tile_band_point_coord:
  assumes "p + length T \<le> length ts" "i < length T"
  shows "tile_band p T ts ! (p + length T + i) = (ts ! (p + i)) mod (T ! i)"
proof -
  let ?band = "take (length T) (drop p ts)"
  have lb: "length ?band = length T" using assms by simp
  have "tile_band p T ts ! (p + length T + i)
        = (map2 (\<lambda>t Ti. t div Ti) ?band T @ map2 (\<lambda>t Ti. t mod Ti) ?band T
             @ drop (p + length T) ts) ! (length T + i)"
    using assms by (simp add: tile_band_def Let_def nth_append)
  also have "\<dots> = (map2 (\<lambda>t Ti. t mod Ti) ?band T @ drop (p + length T) ts) ! i"
    using assms lb by (simp add: nth_append)
  also have "\<dots> = map2 (\<lambda>t Ti. t mod Ti) ?band T ! i"
    using assms lb by (simp add: nth_append)
  also have "\<dots> = (?band ! i) mod (T ! i)"
    using assms lb by simp
  also have "?band ! i = ts ! (p + i)"
    using assms by simp
  finally show ?thesis .
qed

text \<open>
  C4. For a band of \<open>k\<close> consecutive coordinates at position \<open>p\<close> of a timestamp
  vector and strictly positive tile sizes \<open>T\<close>, tiling leaves the coordinates before
  and after the band as they were and replaces the band by \<open>2 * k\<close> coordinates: the
  tile coordinates \<open>t div T\<^sub>i\<close> followed by the point coordinates \<open>t mod T\<^sub>i\<close>,
  each point coordinate in \<open>[0, T\<^sub>i)\<close> and \<open>t = T\<^sub>i * tile + point\<close>. The two-size
  call used by \<^verbatim>\<open>optimizeSchedule\<close> maps a stamp \<open>[i, j, \<dots>]\<close> to
  \<open>[i div T\<^sub>i, j div T\<^sub>j, i mod T\<^sub>i, j mod T\<^sub>j, \<dots>]\<close>.
\<close>

theorem tiling_rewrites_band:
  assumes "length T = k" and "p + k \<le> length ts" and "\<forall>Ti \<in> set T. 0 < Ti"
  shows "length (tile_band p T ts) = length ts + k
    \<and> take p (tile_band p T ts) = take p ts
    \<and> drop (p + 2 * k) (tile_band p T ts) = drop (p + k) ts
    \<and> (\<forall>i < k.
          tile_band p T ts ! (p + i) = (ts ! (p + i)) div (T ! i)
        \<and> tile_band p T ts ! (p + k + i) = (ts ! (p + i)) mod (T ! i)
        \<and> 0 \<le> tile_band p T ts ! (p + k + i) \<and> tile_band p T ts ! (p + k + i) < T ! i
        \<and> ts ! (p + i) = T ! i * (tile_band p T ts ! (p + i)) + tile_band p T ts ! (p + k + i))
    \<and> (\<forall>sched x i j rest. sched x = i # j # rest \<longrightarrow>
          isl_schedule_node_band_tile sched Ti Tj x
            = [i div Ti, j div Tj, i mod Ti, j mod Tj] @ rest)"
proof (intro conjI allI impI)
  from assms show "length (tile_band p T ts) = length ts + k"
    by (simp add: tile_band_length)
  from assms show "take p (tile_band p T ts) = take p ts"
    by (simp add: tile_band_take)
  from assms show "drop (p + 2 * k) (tile_band p T ts) = drop (p + k) ts"
    using tile_band_drop [of p T ts] by simp
next
  fix i assume i: "i < k"
  with assms have pos: "0 < T ! i" by simp
  from assms i show d: "tile_band p T ts ! (p + i) = (ts ! (p + i)) div (T ! i)"
    by (simp add: tile_band_tile_coord)
  from assms i show m: "tile_band p T ts ! (p + k + i) = (ts ! (p + i)) mod (T ! i)"
    using tile_band_point_coord [of p T ts i] by simp
  from m pos show "0 \<le> tile_band p T ts ! (p + k + i)" by simp
  from m pos show "tile_band p T ts ! (p + k + i) < T ! i" by simp
  from d m show "ts ! (p + i) = T ! i * (tile_band p T ts ! (p + i)) + tile_band p T ts ! (p + k + i)"
    by simp
next
  fix sched :: isl_schedule and x i j rest
  assume "sched x = i # j # rest"
  then show "isl_schedule_node_band_tile sched Ti Tj x
            = [i div Ti, j div Tj, i mod Ti, j mod Tj] @ rest"
    by (simp add: isl_schedule_node_band_tile_def tile_band_def)
qed

theorem tiling_rewrites_band_witness:
  "tile_band 1 [2, 3] [5, 7, - 4, 9] = [5, 3, - 2, 1, 2, 9]
   \<and> length (tile_band 1 [2, 3] [5, 7, - 4, 9]) = 6
   \<and> take 1 (tile_band 1 [2, 3] [5, 7, - 4, 9]) = [5]
   \<and> drop 5 (tile_band 1 [2, 3] [5, 7, - 4, 9]) = [9]
   \<and> isl_schedule_node_band_tile initial_schedule 2 3 (4, [7, - 4]) = [3, - 2, 1, 2, 4]"
proof -
  have h: "length [2, 3 :: int] = 2" "1 + 2 \<le> length [5, 7, - 4, 9 :: int]"
    "\<forall>Ti \<in> set [2, 3 :: int]. 0 < Ti"
    by simp_all
  note t = tiling_rewrites_band [OF h, where Ti = 2 and Tj = 3]
  have len: "length (tile_band 1 [2, 3] [5, 7, - 4, 9]) = 6" using t by simp
  have tk: "take 1 (tile_band 1 [2, 3] [5, 7, - 4, 9]) = [5]" using t by simp
  have dr: "drop 5 (tile_band 1 [2, 3] [5, 7, - 4, 9]) = [9]" using t by simp
  have a: "tile_band 1 [2, 3] [5, 7, - 4, 9] = [5, 3, - 2, 1, 2, 9]"
    by (simp add: tile_band_def)
  from t have "\<forall>sched x i j rest. sched x = i # j # rest \<longrightarrow>
          isl_schedule_node_band_tile sched 2 3 x
            = [i div 2, j div 3, i mod 2, j mod 3] @ rest"
    by blast
  then have "initial_schedule (4, [7, - 4]) = 7 # (- 4) # [4] \<longrightarrow>
          isl_schedule_node_band_tile initial_schedule 2 3 (4, [7, - 4])
            = [7 div 2, (- 4) div 3, 7 mod 2, (- 4) mod 3] @ [4]"
    by blast
  then have b: "isl_schedule_node_band_tile initial_schedule 2 3 (4, [7, - 4]) = [3, - 2, 1, 2, 4]"
    by (simp add: initial_schedule_def)
  from a b len tk dr show ?thesis by blast
qed

section \<open>Tiling with size one\<close>

lemma div_by_ones:
  "length xs = k \<Longrightarrow> map2 (\<lambda>t Ti. t div Ti) xs (replicate k (1::int)) = xs"
  by (induction xs arbitrary: k) auto

lemma mod_by_ones:
  "length xs = k \<Longrightarrow> map2 (\<lambda>t Ti. t mod Ti) xs (replicate k (1::int)) = replicate k 0"
  by (induction xs arbitrary: k) auto

lemma tile_band_ones:
  assumes "p + k \<le> length x"
  shows "tile_band p (replicate k 1) x = take (p + k) x @ replicate k 0 @ drop (p + k) x"
proof -
  have "length (take k (drop p x)) = k" using assms by simp
  then have "tile_band p (replicate k 1) x
      = take p x @ take k (drop p x) @ replicate k 0 @ drop (p + k) x"
    by (simp add: tile_band_def div_by_ones mod_by_ones)
  moreover have "take p x @ take k (drop p x) = take (p + k) x"
    by (simp add: take_add)
  ultimately show ?thesis by simp
qed

lemma less_append_same_length:
  fixes A B :: "int list"
  shows "length A = length B \<Longrightarrow> (A @ u < B @ v \<longleftrightarrow> A < B \<or> (A = B \<and> u < v))"
  by (induction A B rule: list_induct2) auto

lemma less_insert_mid:
  fixes A B :: "int list"
  assumes "length A = length B"
  shows "A @ Z @ u < B @ Z @ v \<longleftrightarrow> A @ u < B @ v"
proof -
  have "Z @ u < Z @ v \<longleftrightarrow> u < v"
    using less_append_same_length [of Z Z u v] by simp
  then show ?thesis
    using assms by (simp add: less_append_same_length)
qed

lemma tile_ones_less:
  assumes "p + k \<le> length x" "p + k \<le> length y"
  shows "tile_band p (replicate k 1) x < tile_band p (replicate k 1) y \<longleftrightarrow> x < y"
proof -
  have "length (take (p + k) x) = length (take (p + k) y)" using assms by simp
  then have "take (p + k) x @ replicate k 0 @ drop (p + k) x
               < take (p + k) y @ replicate k 0 @ drop (p + k) y
             \<longleftrightarrow> take (p + k) x @ drop (p + k) x < take (p + k) y @ drop (p + k) y"
    by (rule less_insert_mid)
  then show ?thesis using assms by (simp add: tile_band_ones)
qed

lemma tile_ones_eq:
  assumes "p + k \<le> length x" "p + k \<le> length y"
  shows "tile_band p (replicate k 1) x = tile_band p (replicate k 1) y \<longleftrightarrow> x = y"
proof
  assume "tile_band p (replicate k 1) x = tile_band p (replicate k 1) y"
  then have "take (p + k) x @ replicate k 0 @ drop (p + k) x
               = take (p + k) y @ replicate k 0 @ drop (p + k) y"
    using assms by (simp add: tile_band_ones)
  moreover have "length (take (p + k) x) = length (take (p + k) y)" using assms by simp
  ultimately have "take (p + k) x = take (p + k) y \<and> drop (p + k) x = drop (p + k) y"
    by simp
  then have "take (p + k) x @ drop (p + k) x = take (p + k) y @ drop (p + k) y"
    by simp
  then show "x = y" by simp
qed simp

lemma tile_ones_le:
  assumes "p + k \<le> length x" "p + k \<le> length y"
  shows "tile_band p (replicate k 1) x \<le> tile_band p (replicate k 1) y \<longleftrightarrow> x \<le> y"
  using tile_ones_less [OF assms] tile_ones_eq [OF assms] by (simp add: le_less)

lemma insort_key_cong_le:
  assumes "\<forall>y \<in> set ys. (f x \<le> f y \<longleftrightarrow> g x \<le> g y)"
  shows "insort_key f x ys = insort_key g x ys"
  using assms by (induction ys) auto

lemma sort_key_cong_le:
  fixes f g :: "'a \<Rightarrow> int list"
  assumes "\<forall>a \<in> set xs. \<forall>b \<in> set xs. (f a \<le> f b \<longleftrightarrow> g a \<le> g b)"
  shows "sort_key f xs = sort_key g xs"
  using assms
proof (induction xs)
  case Nil
  then show ?case by simp
next
  case (Cons x xs)
  then have ih: "sort_key f xs = sort_key g xs" by simp
  have "\<forall>y \<in> set (sort_key g xs). (f x \<le> f y \<longleftrightarrow> g x \<le> g y)"
    using Cons.prems by simp
  then have "insort_key f x (sort_key g xs) = insort_key g x (sort_key g xs)"
    by (rule insort_key_cong_le)
  with ih show ?case by simp
qed

text \<open>
  C6. For every schedule and every band that lies within the timestamps of the instances
  considered, tiling the band with the all-ones size vector keeps every comparison
  between timestamps, so the leaf execution order of the tiled schedule equals that of
  the untiled one; in particular for the two-size call with sizes 1 and 1.
\<close>

theorem tiling_by_ones_keeps_leaf_order:
  assumes "\<forall>a \<in> set xs. p + k \<le> length (sched a)"
  shows "leaf_order (\<lambda>a. tile_band p (replicate k 1) (sched a)) xs = leaf_order sched xs
    \<and> (\<forall>a \<in> set xs. \<forall>b \<in> set xs.
          (tile_band p (replicate k 1) (sched a) < tile_band p (replicate k 1) (sched b)
             \<longleftrightarrow> sched a < sched b)
        \<and> (tile_band p (replicate k 1) (sched a) = tile_band p (replicate k 1) (sched b)
             \<longleftrightarrow> sched a = sched b))
    \<and> (p = 0 \<and> k = 2 \<longrightarrow>
          leaf_order (isl_schedule_node_band_tile sched 1 1) xs = leaf_order sched xs)"
proof -
  have le: "\<forall>a \<in> set xs. \<forall>b \<in> set xs.
      (tile_band p (replicate k 1) (sched a) \<le> tile_band p (replicate k 1) (sched b)
         \<longleftrightarrow> sched a \<le> sched b)"
    using assms by (simp add: tile_ones_le)
  have order: "leaf_order (\<lambda>a. tile_band p (replicate k 1) (sched a)) xs = leaf_order sched xs"
    unfolding leaf_order_def using le by (rule sort_key_cong_le)
  have cmp: "\<forall>a \<in> set xs. \<forall>b \<in> set xs.
          (tile_band p (replicate k 1) (sched a) < tile_band p (replicate k 1) (sched b)
             \<longleftrightarrow> sched a < sched b)
        \<and> (tile_band p (replicate k 1) (sched a) = tile_band p (replicate k 1) (sched b)
             \<longleftrightarrow> sched a = sched b)"
    using assms by (simp add: tile_ones_less tile_ones_eq)
  have "replicate 2 (1::int) = [1, 1]" by (simp add: numeral_2_eq_2)
  then have code: "p = 0 \<and> k = 2 \<longrightarrow>
      isl_schedule_node_band_tile sched 1 1 = (\<lambda>a. tile_band p (replicate k 1) (sched a))"
    by (simp add: isl_schedule_node_band_tile_def)
  have call: "p = 0 \<and> k = 2 \<longrightarrow>
      leaf_order (isl_schedule_node_band_tile sched 1 1) xs = leaf_order sched xs"
  proof
    assume "p = 0 \<and> k = 2"
    with code have "isl_schedule_node_band_tile sched 1 1
        = (\<lambda>a. tile_band p (replicate k 1) (sched a))"
      by blast
    with order show "leaf_order (isl_schedule_node_band_tile sched 1 1) xs = leaf_order sched xs"
      by simp
  qed
  from order cmp call show ?thesis by blast
qed

theorem tiling_by_ones_keeps_leaf_order_witness:
  "leaf_order initial_schedule [(0, [1, 0]), (0, [0, 1]), (1, [0, 0])]
     = [(1, [0, 0]), (0, [0, 1]), (0, [1, 0])]
   \<and> leaf_order (isl_schedule_node_band_tile initial_schedule 1 1)
       [(0, [1, 0]), (0, [0, 1]), (1, [0, 0])]
     = [(1, [0, 0]), (0, [0, 1]), (0, [1, 0])]"
proof -
  let ?xs = "[(0, [1, 0]), (0, [0, 1]), (1, [0, 0])] :: inst list"
  have h: "\<forall>a \<in> set ?xs. 0 + 2 \<le> length (initial_schedule a)"
    by (simp add: initial_schedule_def)
  have a: "leaf_order initial_schedule ?xs = [(1, [0, 0]), (0, [0, 1]), (0, [1, 0])]"
    by (simp add: leaf_order_def initial_schedule_def)
  from tiling_by_ones_keeps_leaf_order [OF h]
  have "leaf_order (isl_schedule_node_band_tile initial_schedule 1 1) ?xs
          = leaf_order initial_schedule ?xs"
    by simp
  with a show ?thesis by simp
qed

section \<open>The last write before a read\<close>

lemma initial_schedule_inj:
  "initial_schedule x = initial_schedule y \<Longrightarrow> x = y"
  by (cases x; cases y) (simp add: initial_schedule_def)

lemma executed_before_total:
  "x \<noteq> y \<Longrightarrow> executed_before x y \<or> executed_before y x"
  using initial_schedule_inj [of x y] less_linear [of "initial_schedule x" "initial_schedule y"]
  by (auto simp: executed_before_def)

lemma executed_before_irrefl: "\<not> executed_before x x"
  by (simp add: executed_before_def)

lemma executed_before_trans:
  "executed_before x y \<Longrightarrow> executed_before y z \<Longrightarrow> executed_before x z"
  by (auto simp: executed_before_def)


lemma set_writes_to:
  "w \<in> set (writes_to M a e) \<longleftrightarrow> (w, a, e) \<in> set (touches WRITE M)"
  by (force simp: writes_to_def)

lemma set_last_writes_before:
  "w \<in> set (last_writes_before M t a e) \<longleftrightarrow>
     (w, a, e) \<in> set (touches WRITE M) \<and> executed_before w t
     \<and> (\<forall>w'. (w', a, e) \<in> set (touches WRITE M) \<and> executed_before w' t
            \<longrightarrow> \<not> executed_before w w')"
  unfolding last_writes_before_def Let_def
  by (simp only: set_filter mem_Collect_eq list_all_iff set_writes_to) blast


lemma set_edges_general:
  "(w, r, a, e) \<in> set (concat (map (\<lambda>(r, a, e). map (\<lambda>w. (w, r, a, e)) (L r a e)) xs))
     \<longleftrightarrow> (r, a, e) \<in> set xs \<and> w \<in> set (L r a e)"
  by (induction xs) auto

lemma set_RAW_edges:
  "(w, r, a, e) \<in> set (RAW_edges M) \<longleftrightarrow>
     (r, a, e) \<in> set (touches READ M) \<and> w \<in> set (last_writes_before M r a e)"
  unfolding RAW_edges_def by (rule set_edges_general)

lemma has_latest:
  "xs \<noteq> [] \<Longrightarrow> \<exists>w \<in> set xs. \<forall>w' \<in> set xs. \<not> executed_before w w'"
proof (induction xs)
  case Nil
  then show ?case by simp
next
  case (Cons x xs)
  show ?case
  proof (cases "xs = []")
    case True
    then show ?thesis by (simp add: executed_before_irrefl)
  next
    case False
    with Cons.IH obtain m where m: "m \<in> set xs" "\<forall>w' \<in> set xs. \<not> executed_before m w'"
      by blast
    show ?thesis
    proof (cases "executed_before m x")
      case True
      have "\<forall>w' \<in> set (x # xs). \<not> executed_before x w'"
      proof
        fix w' assume "w' \<in> set (x # xs)"
        then consider "w' = x" | "w' \<in> set xs" by auto
        then show "\<not> executed_before x w'"
        proof cases
          case 1
          then show ?thesis by (simp add: executed_before_irrefl)
        next
          case 2
          with m have "\<not> executed_before m w'" by blast
          with True show ?thesis using executed_before_trans by blast
        qed
      qed
      then show ?thesis by auto
    next
      case False
      with m have "\<forall>w' \<in> set (x # xs). \<not> executed_before m w'" by simp
      with m(1) show ?thesis by auto
    qed
  qed
qed

lemma last_writes_before_nonempty:
  assumes "(w', a, e) \<in> set (touches WRITE M)" "executed_before w' t"
  shows "last_writes_before M t a e \<noteq> []"
proof -
  let ?cs = "filter (\<lambda>w. executed_before w t) (writes_to M a e)"
  from assms have "w' \<in> set ?cs" by (simp add: set_writes_to)
  then have "?cs \<noteq> []" by (auto simp: filter_empty_conv)
  from has_latest [OF this] obtain w where "w \<in> set ?cs" "\<forall>w' \<in> set ?cs. \<not> executed_before w w'"
    by blast
  then have "w \<in> set (last_writes_before M t a e)"
    by (simp add: last_writes_before_def Let_def list_all_iff)
  then show ?thesis by auto
qed

text \<open>
  C3. In the RAW relation, a read instance \<open>r\<close> of an element \<open>e\<close> of array \<open>a\<close> has at
  most one source. That source is a write to the element executed before the read, and
  every other write to the element before the read is executed before the source (it is
  the most recent one). A source exists whenever some write to the element precedes the
  read.
\<close>

theorem raw_last_write_only:
  "(\<forall>w1 w2. (w1, r, a, e) \<in> set (RAW_edges M) \<and> (w2, r, a, e) \<in> set (RAW_edges M)
       \<longrightarrow> w1 = w2)
   \<and> (\<forall>w. (w, r, a, e) \<in> set (RAW_edges M) \<longrightarrow>
         (r, a, e) \<in> set (touches READ M) \<and> (w, a, e) \<in> set (touches WRITE M)
         \<and> executed_before w r
         \<and> (\<forall>w'. (w', a, e) \<in> set (touches WRITE M) \<and> executed_before w' r \<and> w' \<noteq> w
                \<longrightarrow> executed_before w' w))
   \<and> ((r, a, e) \<in> set (touches READ M)
        \<and> (\<exists>w'. (w', a, e) \<in> set (touches WRITE M) \<and> executed_before w' r)
       \<longrightarrow> (\<exists>w. (w, r, a, e) \<in> set (RAW_edges M)))
   \<and> set (RAW M) = {(w, r). \<exists>a e. (w, r, a, e) \<in> set (RAW_edges M)}"
proof (intro conjI allI impI)
  fix w1 w2
  assume h: "(w1, r, a, e) \<in> set (RAW_edges M) \<and> (w2, r, a, e) \<in> set (RAW_edges M)"
  then have m1: "w1 \<in> set (last_writes_before M r a e)"
    and m2: "w2 \<in> set (last_writes_before M r a e)"
    by (simp_all add: set_RAW_edges)
  from m1 m2 have "\<not> executed_before w1 w2"
    using set_last_writes_before [of w1 M r a e] set_last_writes_before [of w2 M r a e] by blast
  moreover from m1 m2 have "\<not> executed_before w2 w1"
    using set_last_writes_before [of w1 M r a e] set_last_writes_before [of w2 M r a e] by blast
  ultimately show "w1 = w2" using executed_before_total by blast
next
  fix w
  assume h: "(w, r, a, e) \<in> set (RAW_edges M)"
  then have m: "w \<in> set (last_writes_before M r a e)" by (simp add: set_RAW_edges)
  from h show "(r, a, e) \<in> set (touches READ M)" by (simp add: set_RAW_edges)
  from m show "(w, a, e) \<in> set (touches WRITE M)"
    using set_last_writes_before [of w M r a e] by blast
  from m show "executed_before w r"
    using set_last_writes_before [of w M r a e] by blast
  fix w'
  assume w': "(w', a, e) \<in> set (touches WRITE M) \<and> executed_before w' r \<and> w' \<noteq> w"
  with m have "\<not> executed_before w w'"
    using set_last_writes_before [of w M r a e] by blast
  with w' show "executed_before w' w" using executed_before_total by blast
next
  assume h: "(r, a, e) \<in> set (touches READ M)
        \<and> (\<exists>w'. (w', a, e) \<in> set (touches WRITE M) \<and> executed_before w' r)"
  then obtain w' where "(w', a, e) \<in> set (touches WRITE M)" "executed_before w' r" by blast
  then have "last_writes_before M r a e \<noteq> []" by (rule last_writes_before_nonempty)
  then obtain w where "w \<in> set (last_writes_before M r a e)"
    by (cases "last_writes_before M r a e") auto
  with h have "(w, r, a, e) \<in> set (RAW_edges M)"
    by (simp add: set_RAW_edges)
  then show "\<exists>w. (w, r, a, e) \<in> set (RAW_edges M)" ..
next
  show "set (RAW M) = {(w, r). \<exists>a e. (w, r, a, e) \<in> set (RAW_edges M)}"
    by (force simp: RAW_def)
qed

lemma accumulate_touches:
  "touches WRITE [\<lparr>stmt_domain = [[0], [1], [2]],
      stmt_accesses = [\<lparr>acc_type = READ, acc_array = ''X'', acc_rel = (\<lambda>iv. [0])\<rparr>,
                       \<lparr>acc_type = WRITE, acc_array = ''X'', acc_rel = (\<lambda>iv. [0])\<rparr>]\<rparr>]
     = [((0, [0]), ''X'', [0]), ((0, [1]), ''X'', [0]), ((0, [2]), ''X'', [0])]"
  "touches READ [\<lparr>stmt_domain = [[0], [1], [2]],
      stmt_accesses = [\<lparr>acc_type = READ, acc_array = ''X'', acc_rel = (\<lambda>iv. [0])\<rparr>,
                       \<lparr>acc_type = WRITE, acc_array = ''X'', acc_rel = (\<lambda>iv. [0])\<rparr>]\<rparr>]
     = [((0, [0]), ''X'', [0]), ((0, [1]), ''X'', [0]), ((0, [2]), ''X'', [0])]"
  by (simp_all add: touches_def)

lemma accumulate_RAW_edges:
  "RAW_edges [\<lparr>stmt_domain = [[0], [1], [2]],
      stmt_accesses = [\<lparr>acc_type = READ, acc_array = ''X'', acc_rel = (\<lambda>iv. [0])\<rparr>,
                       \<lparr>acc_type = WRITE, acc_array = ''X'', acc_rel = (\<lambda>iv. [0])\<rparr>]\<rparr>]
     = [((0, [0]), (0, [1]), ''X'', [0]), ((0, [1]), (0, [2]), ''X'', [0])]"
  by (simp add: RAW_edges_def accumulate_touches last_writes_before_def writes_to_def
      executed_before_def initial_schedule_def)

theorem raw_last_write_only_witness:
  "((0, [1]), (0, [2]), ''X'', [0]) \<in> set (RAW_edges [\<lparr>stmt_domain = [[0], [1], [2]],
      stmt_accesses = [\<lparr>acc_type = READ, acc_array = ''X'', acc_rel = (\<lambda>iv. [0])\<rparr>,
                       \<lparr>acc_type = WRITE, acc_array = ''X'', acc_rel = (\<lambda>iv. [0])\<rparr>]\<rparr>])
   \<and> ((0, [0]), ''X'', [0]) \<in> set (touches WRITE [\<lparr>stmt_domain = [[0], [1], [2]],
      stmt_accesses = [\<lparr>acc_type = READ, acc_array = ''X'', acc_rel = (\<lambda>iv. [0])\<rparr>,
                       \<lparr>acc_type = WRITE, acc_array = ''X'', acc_rel = (\<lambda>iv. [0])\<rparr>]\<rparr>])
   \<and> executed_before (0, [0]) (0, [2])
   \<and> ((0, [0]), (0, [2]), ''X'', [0]) \<notin> set (RAW_edges [\<lparr>stmt_domain = [[0], [1], [2]],
      stmt_accesses = [\<lparr>acc_type = READ, acc_array = ''X'', acc_rel = (\<lambda>iv. [0])\<rparr>,
                       \<lparr>acc_type = WRITE, acc_array = ''X'', acc_rel = (\<lambda>iv. [0])\<rparr>]\<rparr>])"
proof -
  let ?M = "[\<lparr>stmt_domain = [[0], [1], [2]],
      stmt_accesses = [\<lparr>acc_type = READ, acc_array = ''X'', acc_rel = (\<lambda>iv. [0])\<rparr>,
                       \<lparr>acc_type = WRITE, acc_array = ''X'', acc_rel = (\<lambda>iv. [0])\<rparr>]\<rparr>]"
  have last: "((0, [1]), (0, [2]), ''X'', [0]) \<in> set (RAW_edges ?M)"
    by (simp add: accumulate_RAW_edges)
  have wr: "((0, [0]), ''X'', [0]) \<in> set (touches WRITE ?M)"
    by (simp add: accumulate_touches)
  have before: "executed_before (0, [0]) (0, [2])"
    by (simp add: executed_before_def initial_schedule_def)
  from raw_last_write_only [of "(0, [2])" "''X''" "[0]" ?M]
  have "\<forall>w1 w2. (w1, (0, [2]), ''X'', [0]) \<in> set (RAW_edges ?M)
          \<and> (w2, (0, [2]), ''X'', [0]) \<in> set (RAW_edges ?M) \<longrightarrow> w1 = w2"
    by (rule conjunct1)
  with last have "\<forall>w2. (w2, (0, [2]), ''X'', [0]) \<in> set (RAW_edges ?M) \<longrightarrow> w2 = (0, [1])"
    by blast
  then have "((0, [0]), (0, [2]), ''X'', [0]) \<in> set (RAW_edges ?M)
      \<longrightarrow> ((0, [0]) :: inst) = (0, [1])"
    by (rule spec)
  moreover have "((0, [0]) :: inst) \<noteq> (0, [1])" by simp
  ultimately have "((0, [0]), (0, [2]), ''X'', [0]) \<notin> set (RAW_edges ?M)"
    by blast
  with last wr before show ?thesis by blast
qed

section \<open>Legality of the final schedule\<close>















end
